theory Spec2Isabelle
  imports Main "HOL-Library.Sublist"
begin

section \<open>Strings as the Go standard library treats them\<close>

text \<open>
  The program verified here is \<^verbatim>\<open>tools/directivesgen/main.go\<close>: it reads the doc
  comments of the functions \<^verbatim>\<open>directiveXxx\<close> of a Go file and writes one Markdown
  page per directive.

  A Go string is a sequence of bytes; it is modelled by \<^typ>\<open>string\<close>, a list of
  eight-bit characters. The functions of package \<^verbatim>\<open>strings\<close> that the generator
  calls are embedded with the behaviour their documentation gives.
\<close>

text \<open>\<^verbatim>\<open>strings.HasPrefix(s, prefix)\<close>: \<^verbatim>\<open>len(s) >= len(prefix) && s[:len(prefix)] == prefix\<close>.\<close>

definition HasPrefix :: "string \<Rightarrow> string \<Rightarrow> bool" where
  "HasPrefix s p = (length p \<le> length s \<and> take (length p) s = p)"

text \<open>\<^verbatim>\<open>strings.HasSuffix(s, suffix)\<close>, the mirror image.\<close>

definition HasSuffix :: "string \<Rightarrow> string \<Rightarrow> bool" where
  "HasSuffix s p = (length p \<le> length s \<and> drop (length s - length p) s = p)"

text \<open>\<^verbatim>\<open>strings.Index(s, sep)\<close>: the position of the first occurrence, \<open>None\<close> for \<open>-1\<close>.\<close>

fun Index :: "string \<Rightarrow> string \<Rightarrow> nat option" where
  "Index [] sep = (if sep = [] then Some 0 else None)"
| "Index (c # cs) sep =
     (if HasPrefix (c # cs) sep then Some 0 else map_option Suc (Index cs sep))"

text \<open>
  \<^verbatim>\<open>strings.Cut(s, sep)\<close>: around the first occurrence of \<open>sep\<close>; when there is none
  the result is \<open>(s, "", false)\<close>.
\<close>

definition Cut :: "string \<Rightarrow> string \<Rightarrow> string \<times> string \<times> bool" where
  "Cut s sep =
     (case Index s sep of
        Some i \<Rightarrow> (take i s, drop (i + length sep) s, True)
      | None \<Rightarrow> (s, [], False))"

text \<open>
  White space as \<^verbatim>\<open>unicode.IsSpace\<close> defines it, in its UTF-8 encoding: the six ASCII
  characters, U+0085, U+00A0, U+1680, U+2000 to U+200A, U+2028, U+2029, U+202F,
  U+205F and U+3000.
\<close>

definition spaceEncodings :: "string list" where
  "spaceEncodings =
     [[CHR 0x09], [CHR 0x0A], [CHR 0x0B], [CHR 0x0C], [CHR 0x0D], [CHR 0x20],
      [CHR 0xC2, CHR 0x85], [CHR 0xC2, CHR 0xA0],
      [CHR 0xE1, CHR 0x9A, CHR 0x80],
      [CHR 0xE2, CHR 0x80, CHR 0x80], [CHR 0xE2, CHR 0x80, CHR 0x81],
      [CHR 0xE2, CHR 0x80, CHR 0x82], [CHR 0xE2, CHR 0x80, CHR 0x83],
      [CHR 0xE2, CHR 0x80, CHR 0x84], [CHR 0xE2, CHR 0x80, CHR 0x85],
      [CHR 0xE2, CHR 0x80, CHR 0x86], [CHR 0xE2, CHR 0x80, CHR 0x87],
      [CHR 0xE2, CHR 0x80, CHR 0x88], [CHR 0xE2, CHR 0x80, CHR 0x89],
      [CHR 0xE2, CHR 0x80, CHR 0x8A],
      [CHR 0xE2, CHR 0x80, CHR 0xA8], [CHR 0xE2, CHR 0x80, CHR 0xA9],
      [CHR 0xE2, CHR 0x80, CHR 0xAF], [CHR 0xE2, CHR 0x81, CHR 0x9F],
      [CHR 0xE3, CHR 0x80, CHR 0x80]]"

text \<open>
  \<^verbatim>\<open>strings.TrimSpace(s)\<close>: leading white space is removed rune by rune from the
  left, then trailing white space from the right. A byte sequence that is not the
  encoding of a white-space rune stops the trimming.
\<close>

function trimLeftSpace :: "string \<Rightarrow> string" where
  "trimLeftSpace s =
     (case find (HasPrefix s) spaceEncodings of
        None \<Rightarrow> s
      | Some e \<Rightarrow> trimLeftSpace (drop (length e) s))"
  by pat_completeness auto


lemma spaceEncodings_nonempty: "e \<in> set spaceEncodings \<Longrightarrow> e \<noteq> []"
  by (auto simp: spaceEncodings_def)

lemma find_space_prefix:
  assumes "find (HasPrefix s) spaceEncodings = Some e"
  shows "length s - length e < length s"
proof -
  from assms have "e \<in> set spaceEncodings" and "length e \<le> length s"
    by (auto simp: find_Some_iff HasPrefix_def)
  then have "0 < length e" and "0 < length s"
    using spaceEncodings_nonempty [of e] by auto
  then show ?thesis by arith
qed

termination trimLeftSpace
  by (relation "measure length") (auto dest: find_space_prefix)

function trimRightSpace :: "string \<Rightarrow> string" where
  "trimRightSpace s =
     (case find (HasSuffix s) spaceEncodings of
        None \<Rightarrow> s
      | Some e \<Rightarrow> trimRightSpace (take (length s - length e) s))"
  by pat_completeness auto

lemma find_space_suffix:
  assumes "find (HasSuffix s) spaceEncodings = Some e"
  shows "length s - length e < length s"
proof -
  from assms have "e \<in> set spaceEncodings" and "length e \<le> length s"
    by (auto simp: find_Some_iff HasSuffix_def)
  then have "0 < length e" and "0 < length s"
    using spaceEncodings_nonempty [of e] by auto
  then show ?thesis by arith
qed

termination trimRightSpace
  by (relation "measure length") (auto dest: find_space_suffix)

definition TrimSpace :: "string \<Rightarrow> string" where
  "TrimSpace s = trimRightSpace (trimLeftSpace s)"

declare trimLeftSpace.simps [simp del] trimRightSpace.simps [simp del]

section \<open>The scanner\<close>

text \<open>
  \<^verbatim>\<open>bufio.NewScanner(strings.NewReader(doc))\<close> splits with \<^verbatim>\<open>bufio.ScanLines\<close>: each
  call of \<^verbatim>\<open>Scan\<close> yields the next line without its end-of-line marker (an optional
  carriage return and a newline); a last line with no newline is yielded when it is
  not empty. \<open>scanLines doc\<close> is the sequence of texts that the successive calls of
  \<^verbatim>\<open>scanner.Text()\<close> return. The embedding covers documents whose lines fit the
  scanner's buffer (lines below 64 KiB), as the doc comments of a Go file do.
\<close>

definition dropCR :: "string \<Rightarrow> string" where
  "dropCR data = (if data \<noteq> [] \<and> last data = CHR 0x0D then butlast data else data)"

function scanLines :: "string \<Rightarrow> string list" where
  "scanLines data =
     (if data = [] then []
      else (case Index data [CHR 0x0A] of
              Some i \<Rightarrow> dropCR (take i data) # scanLines (drop (i + 1) data)
            | None \<Rightarrow> [dropCR data]))"
  by pat_completeness auto
termination
  by (relation "measure length") auto

declare scanLines.simps [simp del]

section \<open>The directive record and its extraction\<close>

text \<open>The struct \<^verbatim>\<open>Directive\<close> (lines 22 to 30).\<close>

record Directive =
  Name :: string
  Description :: string
  Syntax :: string
  Default :: string
  Date :: string
  LastModification :: string
  Content :: string

text \<open>
  Every \<^verbatim>\<open>log.Fatal\<close> of the program is a value of \<open>error\<close>; \<open>UnknownField key\<close> is
  \<^verbatim>\<open>log.Fatalf("unknown field %q", key)\<close>. \<open>NilFuncCall\<close> stands for the panic of
  calling the nil function that a failed map lookup returns.
\<close>

datatype error =
    UnknownField string
  | NilFuncCall
  | CreateError string
  | TemplateError
  | WriteError string
  | ReadError
  | SourceParseError

text \<open>The map \<^verbatim>\<open>fieldAppenders\<close> (lines 99 to 103).\<close>

definition fieldAppenders :: "string \<rightharpoonup> (Directive \<Rightarrow> string \<Rightarrow> Directive)" where
  "fieldAppenders =
     [''Description'' \<mapsto> (\<lambda>d v. d\<lparr>Description := Description d @ v\<rparr>),
      ''Syntax'' \<mapsto> (\<lambda>d v. d\<lparr>Syntax := Syntax d @ v\<rparr>),
      ''Default'' \<mapsto> (\<lambda>d v. d\<lparr>Default := Default d @ v\<rparr>)]"

text \<open>
  \<^verbatim>\<open>decorateNote\<close> (lines 143 to 145) is
  \<^verbatim>\<open>strings.Replace(s, "Note:", "**Note:**", -1)\<close>: from left to right, each occurrence
  found after the previous replacement is replaced.
\<close>

function decorateNote :: "string \<Rightarrow> string" where
  "decorateNote s =
     (case Index s ''Note:'' of
        None \<Rightarrow> s
      | Some i \<Rightarrow> take i s @ ''**Note:**'' @ decorateNote (drop (i + length ''Note:'') s))"
  by pat_completeness auto

lemma Index_bound: "Index s sep = Some i \<Longrightarrow> i + length sep \<le> length s"
  by (induction s arbitrary: i) (auto simp: HasPrefix_def split: if_splits)

termination decorateNote
  by (relation "measure length") (auto dest!: Index_bound)

declare decorateNote.simps [simp del]

text \<open>
  One pass through the body of the first loop of \<^verbatim>\<open>parseDirective\<close> (lines 108 to
  133), on the line \<open>text\<close>: the loop goes on with the record and the previous key
  (\<^verbatim>\<open>continue\<close>, or the end of the body), it is left (\<^verbatim>\<open>break\<close>), or the program
  stops.
\<close>

datatype outcome = Continue Directive string | Break | Fatal error

definition loopBody :: "Directive \<Rightarrow> string \<Rightarrow> string \<Rightarrow> outcome" where
  "loopBody d previousKey text =
     (if HasPrefix text ''directive'' then Continue d previousKey
      else if length (TrimSpace text) = 0 then Continue d previousKey
      else if HasPrefix text ''---'' then Break
      else
        (case Cut text '': '' of (k, v, ok) \<Rightarrow>
           let key = (if ok then k else previousKey);
               value = (if ok then v else '' '' @ text)
           in (case fieldAppenders key of
                 Some fn \<Rightarrow> Continue (fn d value) key
               | None \<Rightarrow>
                   if previousKey \<noteq> [] then
                     (case fieldAppenders previousKey of
                        Some fn \<Rightarrow> Continue (fn d value) previousKey
                      | None \<Rightarrow> Fatal NilFuncCall)
                   else Fatal (UnknownField key))))"

text \<open>
  The first loop (lines 107 to 134) over the lines still to be scanned: its result
  is the record it has built and the lines it leaves to the second loop.
\<close>

fun fieldLoop :: "Directive \<Rightarrow> string \<Rightarrow> string list \<Rightarrow> error + Directive \<times> string list" where
  "fieldLoop d previousKey [] = Inr (d, [])"
| "fieldLoop d previousKey (text # rest) =
     (case loopBody d previousKey text of
        Continue d' key \<Rightarrow> fieldLoop d' key rest
      | Break \<Rightarrow> Inr (d, rest)
      | Fatal err \<Rightarrow> Inl err)"

text \<open>The second loop (lines 136 to 138).\<close>

fun bodyLoop :: "Directive \<Rightarrow> string list \<Rightarrow> Directive" where
  "bodyLoop d [] = d"
| "bodyLoop d (text # rest) =
     bodyLoop (d\<lparr>Content := Content d @ decorateNote text @ [CHR 0x0A]\<rparr>) rest"

text \<open>
  \<^verbatim>\<open>parseDirective\<close> (lines 93 to 141). \<open>now\<close> is the value of
  \<^verbatim>\<open>time.Now().Format(time.RFC3339)\<close> at the call.
\<close>

definition parseDirective :: "string \<Rightarrow> string \<Rightarrow> string \<Rightarrow> error + Directive" where
  "parseDirective name doc now =
     (let d = \<lparr>Name = name, Description = [], Syntax = [], Default = [], Date = [],
                LastModification = now, Content = []\<rparr>
      in (case fieldLoop d [] (scanLines doc) of
            Inl e \<Rightarrow> Inl e
          | Inr (d', rest) \<Rightarrow> Inr (bodyLoop d' rest)))"

section \<open>The traversal of the declarations\<close>

text \<open>
  A function declaration as \<^verbatim>\<open>main\<close> reads it: its name \<^verbatim>\<open>fn.Name.String()\<close>, and
  its doc comment, \<open>None\<close> when \<^verbatim>\<open>fn.Doc\<close> is nil and otherwise the text
  \<^verbatim>\<open>fn.Doc.Text()\<close>.
\<close>

record FuncDecl =
  fnName :: string
  Doc :: "string option"

text \<open>
  What the callback takes from outside: whether \<^verbatim>\<open>os.Create\<close> succeeds on a path,
  the outcome of \<^verbatim>\<open>f.WriteString\<close> (\<open>None\<close> when all is written, \<open>Some n\<close> when it
  fails after \<open>n\<close> bytes), \<^verbatim>\<open>html.UnescapeString\<close>, and the formatted time at each
  reading of the clock. The parsed template is a function that renders a record or
  fails (\<^verbatim>\<open>tmpl.Execute\<close>); the file \<^verbatim>\<open>template.md\<close> is not part of the sources at
  hand, so the template is a parameter.
\<close>

record env =
  createOK :: "string \<Rightarrow> bool"
  writeString :: "string \<Rightarrow> string \<Rightarrow> nat option"
  UnescapeString :: "string \<Rightarrow> string"
  timeNow :: "nat \<Rightarrow> string"

text \<open>The files on disk, by path, and the number of clock readings so far.\<close>

record world =
  files :: "string \<rightharpoonup> string"
  clock :: nat

definition dstDir :: string where
  "dstDir = ''./content/docs/seclang/directives''"

definition outputPath :: "string \<Rightarrow> string" where
  "outputPath directiveName = dstDir @ ''/'' @ directiveName @ ''.md''"

text \<open>
  The callback of \<^verbatim>\<open>ast.Inspect\<close> on a function declaration (lines 59 to 88). The
  file is created, or truncated, before the doc comment is parsed.
\<close>

definition visitFuncDecl ::
  "env \<Rightarrow> (Directive \<Rightarrow> string option) \<Rightarrow> world \<Rightarrow> FuncDecl \<Rightarrow> world \<times> error option" where
  "visitFuncDecl e tmpl w fn =
     (if \<not> HasPrefix (fnName fn) ''directive'' then (w, None)
      else
        (case Doc fn of
           None \<Rightarrow> (w, None)
         | Some docText \<Rightarrow>
             let directiveName = drop 9 (fnName fn);
                 path = outputPath directiveName
             in if \<not> createOK e path then (w, Some (CreateError path))
                else
                  let w1 = w\<lparr>files := (files w)(path \<mapsto> []), clock := Suc (clock w)\<rparr>
                  in (case parseDirective directiveName docText (timeNow e (clock w)) of
                        Inl err \<Rightarrow> (w1, Some err)
                      | Inr d \<Rightarrow>
                          (case tmpl d of
                             None \<Rightarrow> (w1, Some TemplateError)
                           | Some content \<Rightarrow>
                               let out = UnescapeString e content
                               in (case writeString e path out of
                                     Some n \<Rightarrow>
                                       (w1\<lparr>files := (files w1)(path \<mapsto> take n out)\<rparr>,
                                        Some (WriteError path))
                                   | None \<Rightarrow>
                                       (w1\<lparr>files := (files w1)(path \<mapsto> out)\<rparr>, None))))))"

text \<open>
  \<^verbatim>\<open>ast.Inspect\<close> meets the function declarations in source order; the callback
  ignores every other node. A fatal error ends the run.
\<close>

fun Inspect ::
  "env \<Rightarrow> (Directive \<Rightarrow> string option) \<Rightarrow> world \<Rightarrow> FuncDecl list \<Rightarrow> world \<times> error option" where
  "Inspect e tmpl w [] = (w, None)"
| "Inspect e tmpl w (fn # rest) =
     (case visitFuncDecl e tmpl w fn of
        (w', Some err) \<Rightarrow> (w', Some err)
      | (w', None) \<Rightarrow> Inspect e tmpl w' rest)"

text \<open>
  \<^verbatim>\<open>main\<close> (lines 37 to 91). \<open>parsedTemplate\<close> is the outcome of parsing the embedded
  template, \<open>src\<close> the outcome of reading the source file, and \<open>parseFile\<close> gives the
  function declarations of a source text in source order, or fails.
\<close>

definition main ::
  "env \<Rightarrow> (Directive \<Rightarrow> string option) option \<Rightarrow> string option \<Rightarrow>
     (string \<Rightarrow> FuncDecl list option) \<Rightarrow> world \<Rightarrow> world \<times> error option" where
  "main e parsedTemplate src parseFile w =
     (case parsedTemplate of
        None \<Rightarrow> (w, Some TemplateError)
      | Some tmpl \<Rightarrow>
          (case src of
             None \<Rightarrow> (w, Some ReadError)
           | Some text \<Rightarrow>
               (case parseFile text of
                  None \<Rightarrow> (w, Some SourceParseError)
                | Some decls \<Rightarrow> Inspect e tmpl w decls)))"

section \<open>Sample inputs\<close>

text \<open>
  Inputs for the concrete runs below: an environment in which every file operation
  succeeds and the clock reads \<^verbatim>\<open>T\<close>, a template that renders the name and the
  description, a disk with no file, and a few declarations.
\<close>

abbreviation sampleEnv :: env where
  "sampleEnv \<equiv> \<lparr>createOK = (\<lambda>path. True), writeString = (\<lambda>path out. None), UnescapeString = (\<lambda>out. out), timeNow = (\<lambda>n. ''T'')\<rparr>"

abbreviation sampleTemplate :: "Directive \<Rightarrow> string option" where
  "sampleTemplate \<equiv> (\<lambda>d. Some (Name d @ ''|'' @ Description d))"

abbreviation noFiles :: world where
  "noFiles \<equiv> \<lparr>files = Map.empty, clock = 0\<rparr>"

abbreviation helperDecl :: FuncDecl where
  "helperDecl \<equiv> \<lparr>fnName = ''helper'', Doc = Some ''Description: h''\<rparr>"

abbreviation undocumentedDecl :: FuncDecl where
  "undocumentedDecl \<equiv> \<lparr>fnName = ''directiveFoo'', Doc = None\<rparr>"

abbreviation barDecl :: FuncDecl where
  "barDecl \<equiv> \<lparr>fnName = ''directiveBar'', Doc = Some ''Description: b''\<rparr>"

abbreviation bogusDecl :: FuncDecl where
  "bogusDecl \<equiv> \<lparr>fnName = ''directiveFoo'', Doc = Some ''Bogus: x''\<rparr>"

abbreviation bareDecl :: FuncDecl where
  "bareDecl \<equiv> \<lparr>fnName = ''directive'', Doc = Some ''Description: d''\<rparr>"

abbreviation emptyDocDecl :: FuncDecl where
  "emptyDocDecl \<equiv> \<lparr>fnName = ''directiveBar'', Doc = Some []\<rparr>"

section \<open>The field lines in the words of the specification\<close>

text \<open>
  The specification's account of the field lines, in its own words and apart from
  the loop: the lines that begin with \<^verbatim>\<open>directive\<close> and the blank lines are ignored;
  a line with the separator gives its value (the text after the first separator) to
  the field its key names, and that key becomes the current field; a line without
  the separator is a continuation line and gives itself, with one space before it,
  to the current field. \<open>specAttributed field current ls\<close> lists, in source order, what
  the lines \<open>ls\<close> give to \<open>field\<close> when \<open>current\<close> is the current field at their start.
\<close>

fun specAttributed :: "string \<Rightarrow> string \<Rightarrow> string list \<Rightarrow> string list" where
  "specAttributed field current [] = []"
| "specAttributed field current (l # ls) =
     (if HasPrefix l ''directive'' \<or> TrimSpace l = [] then specAttributed field current ls
      else
        (case Cut l '': '' of
           (k, v, True) \<Rightarrow> (if k = field then [v] else []) @ specAttributed field k ls
         | (k, v, False) \<Rightarrow>
             (if current = field then ['' '' @ l] else []) @ specAttributed field current ls))"

text \<open>
  The lines \<open>ls\<close> hold only recognized field lines, blank lines, echo lines of the
  declaration and continuation lines, and each continuation line has a current field
  to go to (\<open>established\<close> tells whether one exists at the start of \<open>ls\<close>).
\<close>

fun specFieldLinesOnly :: "bool \<Rightarrow> string list \<Rightarrow> bool" where
  "specFieldLinesOnly established [] = True"
| "specFieldLinesOnly established (l # ls) =
     (if HasPrefix l ''directive'' \<or> TrimSpace l = [] then specFieldLinesOnly established ls
      else if HasPrefix l ''---'' then False
      else
        (case Cut l '': '' of
           (k, v, True) \<Rightarrow>
             k \<in> {''Description'', ''Syntax'', ''Default''} \<and> specFieldLinesOnly True ls
         | (k, v, False) \<Rightarrow> established \<and> specFieldLinesOnly established ls))"

section \<open>Facts about the two loops\<close>

lemma fieldAppenders_cases:
  assumes "fieldAppenders k = Some fn"
  shows "(k = ''Description'' \<and> fn = (\<lambda>d v. d\<lparr>Description := Description d @ v\<rparr>))
       \<or> (k = ''Syntax'' \<and> fn = (\<lambda>d v. d\<lparr>Syntax := Syntax d @ v\<rparr>))
       \<or> (k = ''Default'' \<and> fn = (\<lambda>d v. d\<lparr>Default := Default d @ v\<rparr>))"
  using assms by (auto simp: fieldAppenders_def split: if_splits)

lemma fieldAppenders_None:
  "fieldAppenders k = None \<longleftrightarrow> k \<notin> {''Description'', ''Syntax'', ''Default''}"
  by (simp add: fieldAppenders_def)

lemma fieldAppenders_keeps:
  assumes "fieldAppenders k = Some fn"
  shows "Name (fn d v) = Name d \<and> Date (fn d v) = Date d
       \<and> LastModification (fn d v) = LastModification d \<and> Content (fn d v) = Content d"
  using fieldAppenders_cases [OF assms] by auto

lemma loopBody_keeps:
  assumes "loopBody d pk l = Continue d' pk'"
  shows "Name d' = Name d \<and> Date d' = Date d
       \<and> LastModification d' = LastModification d \<and> Content d' = Content d"
  using assms fieldAppenders_keeps
  by (auto simp: loopBody_def Let_def split: if_splits prod.splits option.splits)

lemma fieldLoop_keeps:
  "fieldLoop d pk ls = Inr (d', rest) \<Longrightarrow>
     Name d' = Name d \<and> Date d' = Date d
     \<and> LastModification d' = LastModification d \<and> Content d' = Content d"
proof (induction ls arbitrary: d pk)
  case Nil
  then show ?case by simp
next
  case (Cons l ls)
  show ?case
  proof (cases "loopBody d pk l")
    case (Continue d1 pk1)
    with Cons.prems have "fieldLoop d1 pk1 ls = Inr (d', rest)" by simp
    from Cons.IH [OF this] loopBody_keeps [OF Continue] show ?thesis by simp
  next
    case Break
    with Cons.prems show ?thesis by simp
  next
    case (Fatal e)
    with Cons.prems show ?thesis by simp
  qed
qed

lemma bodyLoop_keeps:
  "Name (bodyLoop d ls) = Name d \<and> Date (bodyLoop d ls) = Date d
   \<and> LastModification (bodyLoop d ls) = LastModification d
   \<and> Description (bodyLoop d ls) = Description d
   \<and> Syntax (bodyLoop d ls) = Syntax d
   \<and> Default (bodyLoop d ls) = Default d"
  by (induction ls arbitrary: d) simp_all

lemma bodyLoop_Content:
  "Content (bodyLoop d ls) = Content d @ concat (map (\<lambda>t. decorateNote t @ [CHR 0x0A]) ls)"
  by (induction ls arbitrary: d) simp_all

section \<open>The field Date\<close>

text \<open>
  Claim C10. For every directive name and doc-comment text, the field \<open>Date\<close> of the
  record that \<open>parseDirective\<close> returns is the empty string: the field is declared in
  the struct and no statement of the program assigns it.
\<close>

theorem parseDirective_Date_empty:
  assumes "parseDirective name doc now = Inr d"
  shows "Date d = []"
proof -
  let ?d0 = "\<lparr>Name = name, Description = [], Syntax = [], Default = [], Date = [],
              LastModification = now, Content = []\<rparr>"
  from assms obtain d' rest where
    fl: "fieldLoop ?d0 [] (scanLines doc) = Inr (d', rest)" and d: "d = bodyLoop d' rest"
    by (auto simp: parseDirective_def split: sum.splits)
  from fieldLoop_keeps [OF fl] have "Date d' = []" by simp
  with d bodyLoop_keeps [of d' rest] show ?thesis by simp
qed

theorem parseDirective_Date_empty_witness:
  "parseDirective ''Foo'' ''Description: a\<newline>---\<newline>Note: b'' ''2023-01-01T00:00:00Z''
     = Inr \<lparr>Name = ''Foo'', Description = ''a'', Syntax = [], Default = [], Date = [],
            LastModification = ''2023-01-01T00:00:00Z'', Content = ''**Note:** b\<newline>''\<rparr>
   \<and> Date \<lparr>Name = ''Foo'', Description = ''a'', Syntax = [], Default = [], Date = [],
            LastModification = ''2023-01-01T00:00:00Z'', Content = ''**Note:** b\<newline>''\<rparr> = []"
proof -
  have h: "parseDirective ''Foo'' ''Description: a\<newline>---\<newline>Note: b'' ''2023-01-01T00:00:00Z''
     = Inr \<lparr>Name = ''Foo'', Description = ''a'', Syntax = [], Default = [], Date = [],
            LastModification = ''2023-01-01T00:00:00Z'', Content = ''**Note:** b\<newline>''\<rparr>"
    by code_simp
  from h parseDirective_Date_empty [OF h] show ?thesis by simp
qed

section \<open>Independence of the time of the run\<close>

lemma fieldAppenders_time:
  assumes "fieldAppenders k = Some fn"
  shows "fn (d\<lparr>LastModification := t\<rparr>) v = (fn d v)\<lparr>LastModification := t\<rparr>"
  using fieldAppenders_cases [OF assms] by auto

lemma loopBody_time:
  "loopBody (d\<lparr>LastModification := t\<rparr>) pk l =
     (case loopBody d pk l of
        Continue d' k \<Rightarrow> Continue (d'\<lparr>LastModification := t\<rparr>) k
      | Break \<Rightarrow> Break
      | Fatal e \<Rightarrow> Fatal e)"
  using fieldAppenders_time
  by (auto simp: loopBody_def Let_def split: prod.splits option.splits)

lemma fieldLoop_time:
  "fieldLoop (d\<lparr>LastModification := t\<rparr>) pk ls =
     map_sum id (\<lambda>(d', r). (d'\<lparr>LastModification := t\<rparr>, r)) (fieldLoop d pk ls)"
proof (induction ls arbitrary: d pk)
  case Nil
  show ?case by simp
next
  case (Cons l ls)
  show ?case
    by (cases "loopBody d pk l") (simp_all add: loopBody_time Cons.IH)
qed

lemma bodyLoop_time:
  "bodyLoop (d\<lparr>LastModification := t\<rparr>) ls = (bodyLoop d ls)\<lparr>LastModification := t\<rparr>"
proof (induction ls arbitrary: d)
  case Nil
  show ?case by simp
next
  case (Cons l ls)
  let ?c = "Content d @ decorateNote l @ [CHR 0x0A]"
  have swap: "d\<lparr>LastModification := t, Content := ?c\<rparr> =
                d\<lparr>Content := ?c, LastModification := t\<rparr>"
    by (cases d) simp
  have "bodyLoop (d\<lparr>LastModification := t\<rparr>) (l # ls) =
          bodyLoop ((d\<lparr>Content := ?c\<rparr>)\<lparr>LastModification := t\<rparr>) ls"
    by (simp add: swap)
  also have "\<dots> = (bodyLoop (d\<lparr>Content := ?c\<rparr>) ls)\<lparr>LastModification := t\<rparr>"
    by (rule Cons.IH)
  finally show ?case by simp
qed

lemma parseDirective_time:
  "parseDirective name doc t =
     map_sum id (\<lambda>d. d\<lparr>LastModification := t\<rparr>) (parseDirective name doc now)"
proof -
  let ?d = "\<lparr>Name = name, Description = [], Syntax = [], Default = [], Date = [],
             LastModification = now, Content = []\<rparr>"
  have "fieldLoop (?d\<lparr>LastModification := t\<rparr>) [] (scanLines doc) =
     map_sum id (\<lambda>(d', r). (d'\<lparr>LastModification := t\<rparr>, r)) (fieldLoop ?d [] (scanLines doc))"
    by (rule fieldLoop_time)
  then show ?thesis
    by (cases "fieldLoop ?d [] (scanLines doc)") (auto simp: parseDirective_def bodyLoop_time)
qed

lemma parseDirective_LastModification:
  assumes "parseDirective name doc now = Inr d"
  shows "LastModification d = now"
proof -
  let ?d0 = "\<lparr>Name = name, Description = [], Syntax = [], Default = [], Date = [],
              LastModification = now, Content = []\<rparr>"
  from assms obtain d' rest where
    fl: "fieldLoop ?d0 [] (scanLines doc) = Inr (d', rest)" and d: "d = bodyLoop d' rest"
    by (auto simp: parseDirective_def split: sum.splits)
  from fieldLoop_keeps [OF fl] have "LastModification d' = now" by simp
  with d bodyLoop_keeps [of d' rest] show ?thesis by simp
qed

text \<open>
  Claim C8. For every directive name and doc-comment text, two runs of
  \<open>parseDirective\<close> on the same input, at the times \<open>nowA\<close> and \<open>nowB\<close>, either both
  stop with the same error or both return a record, and the two records agree on
  \<open>Name\<close>, \<open>Description\<close>, \<open>Syntax\<close>, \<open>Default\<close>, \<open>Date\<close> and \<open>Content\<close>;
  \<open>LastModification\<close> is the time of each run, the only field that depends on it.
\<close>

theorem parseDirective_runs_agree:
  "(case (parseDirective name doc nowA, parseDirective name doc nowB) of
      (Inr d1, Inr d2) \<Rightarrow>
         Name d1 = Name d2 \<and> Description d1 = Description d2 \<and> Syntax d1 = Syntax d2
         \<and> Default d1 = Default d2 \<and> Date d1 = Date d2 \<and> Content d1 = Content d2
         \<and> LastModification d1 = nowA \<and> LastModification d2 = nowB
    | (Inl e1, Inl e2) \<Rightarrow> e1 = e2
    | (Inl e1, Inr d2) \<Rightarrow> False
    | (Inr d1, Inl e2) \<Rightarrow> False)"
proof (cases "parseDirective name doc nowA")
  case (Inl e)
  with parseDirective_time [where name = name and doc = doc and t = nowB and now = nowA] show ?thesis by simp
next
  case (Inr d)
  with parseDirective_time [where name = name and doc = doc and t = nowB and now = nowA]
  have "parseDirective name doc nowB = Inr (d\<lparr>LastModification := nowB\<rparr>)" by simp
  with Inr parseDirective_LastModification [OF Inr] show ?thesis by simp
qed

theorem parseDirective_runs_agree_witness:
  "parseDirective ''Foo'' ''Syntax: Foo on|off\<newline>---\<newline>text'' ''2023-01-01T00:00:00Z''
     = Inr \<lparr>Name = ''Foo'', Description = [], Syntax = ''Foo on|off'', Default = [], Date = [],
            LastModification = ''2023-01-01T00:00:00Z'', Content = ''text\<newline>''\<rparr>
   \<and> parseDirective ''Foo'' ''Syntax: Foo on|off\<newline>---\<newline>text'' ''2024-06-30T12:00:00Z''
     = Inr \<lparr>Name = ''Foo'', Description = [], Syntax = ''Foo on|off'', Default = [], Date = [],
            LastModification = ''2024-06-30T12:00:00Z'', Content = ''text\<newline>''\<rparr>"
proof -
  have h: "parseDirective ''Foo'' ''Syntax: Foo on|off\<newline>---\<newline>text'' ''2023-01-01T00:00:00Z''
     = Inr \<lparr>Name = ''Foo'', Description = [], Syntax = ''Foo on|off'', Default = [], Date = [],
            LastModification = ''2023-01-01T00:00:00Z'', Content = ''text\<newline>''\<rparr>"
    by code_simp
  show ?thesis
    using h parseDirective_runs_agree [where name = "''Foo''"
        and doc = "''Syntax: Foo on|off\<newline>---\<newline>text''"
        and nowA = "''2023-01-01T00:00:00Z''" and nowB = "''2024-06-30T12:00:00Z''"]
    by (auto split: sum.splits)
qed

section \<open>Doc comments with no field line\<close>

lemma fieldLoop_skips:
  assumes "\<forall>l \<in> set ls. HasPrefix l ''directive'' \<or> length (TrimSpace l) = 0"
  shows "fieldLoop d pk ls = Inr (d, [])"
  using assms by (induction ls) (auto simp: loopBody_def)

text \<open>
  Claim C9. For every doc comment of zero lines, or only of blank lines and lines
  that begin with \<^verbatim>\<open>directive\<close>, \<open>parseDirective\<close> returns, with no error, a record
  whose \<open>Description\<close>, \<open>Syntax\<close> and \<open>Default\<close> are empty and whose \<open>Content\<close> is
  empty.
\<close>

theorem parseDirective_blank_doc:
  assumes "\<forall>l \<in> set (scanLines doc). HasPrefix l ''directive'' \<or> length (TrimSpace l) = 0"
  shows "parseDirective name doc now =
           Inr \<lparr>Name = name, Description = [], Syntax = [], Default = [], Date = [],
                LastModification = now, Content = []\<rparr>"
  by (simp add: parseDirective_def fieldLoop_skips [OF assms])

theorem parseDirective_blank_doc_witness:
  "scanLines [] = []
   \<and> parseDirective ''Bar'' [] ''T'' =
           Inr \<lparr>Name = ''Bar'', Description = [], Syntax = [], Default = [], Date = [],
                LastModification = ''T'', Content = []\<rparr>
   \<and> scanLines (''directiveBar sets bar'' @ [CHR 0x0A, CHR 0x0A, CHR 0x20, CHR 0x09, CHR 0x0A])
        = [''directiveBar sets bar'', [], [CHR 0x20, CHR 0x09]]
   \<and> parseDirective ''Bar'' (''directiveBar sets bar'' @ [CHR 0x0A, CHR 0x0A, CHR 0x20, CHR 0x09, CHR 0x0A]) ''T'' =
           Inr \<lparr>Name = ''Bar'', Description = [], Syntax = [], Default = [], Date = [],
                LastModification = ''T'', Content = []\<rparr>"
proof -
  have l0: "scanLines [] = []" by code_simp
  have l1: "scanLines (''directiveBar sets bar'' @ [CHR 0x0A, CHR 0x0A, CHR 0x20, CHR 0x09, CHR 0x0A])
        = [''directiveBar sets bar'', [], [CHR 0x20, CHR 0x09]]" by code_simp
  have h0: "\<forall>l \<in> set (scanLines []). HasPrefix l ''directive'' \<or> length (TrimSpace l) = 0"
    unfolding l0 by simp
  have b1: "HasPrefix ''directiveBar sets bar'' ''directive''" by code_simp
  have b2: "length (TrimSpace []) = 0" by code_simp
  have b3: "length (TrimSpace [CHR 0x20, CHR 0x09]) = 0" by code_simp
  have h1: "\<forall>l \<in> set (scanLines (''directiveBar sets bar'' @ [CHR 0x0A, CHR 0x0A, CHR 0x20, CHR 0x09, CHR 0x0A])).
              HasPrefix l ''directive'' \<or> length (TrimSpace l) = 0"
    unfolding l1 using b1 b2 b3 by simp
  show ?thesis
    using l0 l1 parseDirective_blank_doc [OF h0, of "''Bar''" "''T''"]
      parseDirective_blank_doc [OF h1, of "''Bar''" "''T''"]
    by simp
qed

section \<open>Lines with an unknown key\<close>

lemma loopBody_unknown_key:
  assumes "\<not> HasPrefix text ''directive''" and "length (TrimSpace text) \<noteq> 0"
    and "\<not> HasPrefix text ''---''" and "Cut text '': '' = (key, val, True)"
    and "fieldAppenders key = None"
  shows "loopBody d previousKey text =
           (if previousKey \<noteq> [] then
              (case fieldAppenders previousKey of
                 Some fn \<Rightarrow> Continue (fn d val) previousKey
               | None \<Rightarrow> Fatal NilFuncCall)
            else Fatal (UnknownField key))"
  using assms by (simp add: loopBody_def)

lemma fieldAppenders_Nil: "fieldAppenders [] = None"
  by (simp add: fieldAppenders_def)

lemma fieldLoop_skip_prefix:
  assumes "\<forall>l \<in> set before. HasPrefix l ''directive'' \<or> length (TrimSpace l) = 0"
  shows "fieldLoop d pk (before @ ls) = fieldLoop d pk ls"
  using assms by (induction before) (auto simp: loopBody_def)

text \<open>
  Claim C1, as amended. A line that reaches the key split (it does not begin with
  \<^verbatim>\<open>directive\<close>, is not blank and does not begin with \<^verbatim>\<open>---\<close>), contains the
  separator and has a key other than \<open>Description\<close>, \<open>Syntax\<close> and \<open>Default\<close> stops
  \<open>parseDirective\<close> with the error \<open>UnknownField key\<close> when no current field has been
  established: in the loop with an empty previous key, and so in \<open>parseDirective\<close>
  when only ignored lines come before it. When a current field has been established,
  the text after the separator is appended to that field and the loop goes on.
\<close>

theorem unknown_key_fatal_without_current_field:
  assumes "\<not> HasPrefix text ''directive''" and "length (TrimSpace text) \<noteq> 0"
    and "\<not> HasPrefix text ''---''" and "Cut text '': '' = (key, val, True)"
    and "key \<notin> {''Description'', ''Syntax'', ''Default''}"
  shows "fieldLoop d [] (text # rest) = Inl (UnknownField key)
       \<and> (\<forall>fn. fieldAppenders previousKey = Some fn \<longrightarrow>
              fieldLoop d previousKey (text # rest) = fieldLoop (fn d val) previousKey rest)
       \<and> (\<forall>doc before. scanLines doc = before @ text # rest
              \<and> (\<forall>l \<in> set before. HasPrefix l ''directive'' \<or> length (TrimSpace l) = 0)
              \<longrightarrow> parseDirective name doc now = Inl (UnknownField key))"
proof -
  from assms(5) have none: "fieldAppenders key = None" by (simp add: fieldAppenders_None)
  note body = loopBody_unknown_key [OF assms(1-4) none]
  have a: "fieldLoop d [] (text # rest) = Inl (UnknownField key)" for d
    by (simp add: body)
  have b: "fieldLoop d previousKey (text # rest) = fieldLoop (fn d val) previousKey rest"
    if "fieldAppenders previousKey = Some fn" for fn
  proof -
    from that have "previousKey \<noteq> []" by (auto simp: fieldAppenders_Nil)
    with that show ?thesis by (simp add: body)
  qed
  have c: "parseDirective name doc now = Inl (UnknownField key)"
    if sc: "scanLines doc = before @ text # rest"
      and sk: "\<forall>l \<in> set before. HasPrefix l ''directive'' \<or> length (TrimSpace l) = 0"
    for doc before
  proof -
    have "fieldLoop d0 [] (before @ text # rest) = Inl (UnknownField key)" for d0
      unfolding fieldLoop_skip_prefix [OF sk] by (rule a)
    then show ?thesis by (simp add: parseDirective_def sc)
  qed
  from a b c show ?thesis by blast
qed

theorem unknown_key_fatal_without_current_field_witness:
  "\<not> HasPrefix ''Bogus: x'' ''directive'' \<and> length (TrimSpace ''Bogus: x'') \<noteq> 0
   \<and> \<not> HasPrefix ''Bogus: x'' ''---''
   \<and> Cut ''Bogus: x'' '': '' = (''Bogus'', ''x'', True)
   \<and> ''Bogus'' \<notin> {''Description'', ''Syntax'', ''Default''}
   \<and> scanLines ''directiveFoo\<newline>Bogus: x\<newline>Syntax: s'' = [''directiveFoo''] @ ''Bogus: x'' # [''Syntax: s'']
   \<and> fieldLoop \<lparr>Name = ''Foo'', Description = ''a'', Syntax = [], Default = [], Date = [],
                   LastModification = ''T'', Content = []\<rparr> [] [''Bogus: x'', ''Syntax: s'']
         = Inl (UnknownField ''Bogus'')
   \<and> fieldLoop \<lparr>Name = ''Foo'', Description = ''a'', Syntax = [], Default = [], Date = [],
                   LastModification = ''T'', Content = []\<rparr> ''Description'' [''Bogus: x'', ''Syntax: s'']
         = fieldLoop \<lparr>Name = ''Foo'', Description = ''ax'', Syntax = [], Default = [], Date = [],
                   LastModification = ''T'', Content = []\<rparr> ''Description'' [''Syntax: s'']
   \<and> parseDirective ''Foo'' ''directiveFoo\<newline>Bogus: x\<newline>Syntax: s'' ''T''
         = Inl (UnknownField ''Bogus'')"
proof -
  let ?d = "\<lparr>Name = ''Foo'', Description = ''a'', Syntax = [], Default = [], Date = [],
             LastModification = ''T'', Content = []\<rparr>"
  have h1: "\<not> HasPrefix ''Bogus: x'' ''directive''" by code_simp
  have h2: "length (TrimSpace ''Bogus: x'') \<noteq> 0" by code_simp
  have h3: "\<not> HasPrefix ''Bogus: x'' ''---''" by code_simp
  have h4: "Cut ''Bogus: x'' '': '' = (''Bogus'', ''x'', True)" by code_simp
  have h5: "''Bogus'' \<notin> {''Description'', ''Syntax'', ''Default''}" by simp
  have sc: "scanLines ''directiveFoo\<newline>Bogus: x\<newline>Syntax: s'' =
              [''directiveFoo''] @ ''Bogus: x'' # [''Syntax: s'']" by code_simp
  have echo: "HasPrefix ''directiveFoo'' ''directive''" by code_simp
  have ap: "fieldAppenders ''Description'' = Some (\<lambda>d v. d\<lparr>Description := Description d @ v\<rparr>)"
    by (simp add: fieldAppenders_def)
  note t = unknown_key_fatal_without_current_field [OF h1 h2 h3 h4 h5,
      where d = ?d and rest = "[''Syntax: s'']" and previousKey = "''Description''"
        and name = "''Foo''" and now = "''T''"]
  from t have a: "fieldLoop ?d [] [''Bogus: x'', ''Syntax: s''] = Inl (UnknownField ''Bogus'')"
    by blast
  from t ap have b: "fieldLoop ?d ''Description'' [''Bogus: x'', ''Syntax: s''] =
      fieldLoop (?d\<lparr>Description := Description ?d @ ''x''\<rparr>) ''Description'' [''Syntax: s'']"
    by blast
  from t sc echo have c: "parseDirective ''Foo'' ''directiveFoo\<newline>Bogus: x\<newline>Syntax: s'' ''T''
         = Inl (UnknownField ''Bogus'')"
    by simp
  from h1 h2 h3 h4 h5 sc a b c show ?thesis by simp
qed

text \<open>
  The claim as first stated, an abort whether or not a current field has been
  established, fails: after \<^verbatim>\<open>Description: a\<close> the line \<^verbatim>\<open>Bogus: x\<close> is no error, and
  its value goes to \<open>Description\<close>.
\<close>

theorem unknown_key_counterexample:
  "\<not> HasPrefix ''Bogus: x'' ''directive'' \<and> length (TrimSpace ''Bogus: x'') \<noteq> 0
   \<and> \<not> HasPrefix ''Bogus: x'' ''---''
   \<and> Cut ''Bogus: x'' '': '' = (''Bogus'', ''x'', True)
   \<and> fieldAppenders ''Bogus'' = None
   \<and> scanLines ''Description: a\<newline>Bogus: x'' = [''Description: a'', ''Bogus: x'']
   \<and> parseDirective ''Foo'' ''Description: a\<newline>Bogus: x'' ''T'' =
         Inr \<lparr>Name = ''Foo'', Description = ''ax'', Syntax = [], Default = [], Date = [],
              LastModification = ''T'', Content = []\<rparr>"
proof -
  have "\<not> HasPrefix ''Bogus: x'' ''directive''" by code_simp
  moreover have "length (TrimSpace ''Bogus: x'') \<noteq> 0" by code_simp
  moreover have "\<not> HasPrefix ''Bogus: x'' ''---''" by code_simp
  moreover have "Cut ''Bogus: x'' '': '' = (''Bogus'', ''x'', True)" by code_simp
  moreover have "fieldAppenders ''Bogus'' = None" by (simp add: fieldAppenders_def)
  moreover have "scanLines ''Description: a\<newline>Bogus: x'' = [''Description: a'', ''Bogus: x'']"
    by code_simp
  moreover have "parseDirective ''Foo'' ''Description: a\<newline>Bogus: x'' ''T'' =
         Inr \<lparr>Name = ''Foo'', Description = ''ax'', Syntax = [], Default = [], Date = [],
              LastModification = ''T'', Content = []\<rparr>" by code_simp
  ultimately show ?thesis by blast
qed

section \<open>The end of the field lines\<close>

lemma space_not_dash: "e \<in> set spaceEncodings \<Longrightarrow> hd e \<noteq> CHR ''-''"
  by (auto simp: spaceEncodings_def)

lemma trimLeftSpace_dash: "trimLeftSpace (CHR ''-'' # cs) = CHR ''-'' # cs"
proof -
  have "find (HasPrefix (CHR ''-'' # cs)) spaceEncodings = None"
  proof (rule ccontr)
    assume "find (HasPrefix (CHR ''-'' # cs)) spaceEncodings \<noteq> None"
    then obtain e where "e \<in> set spaceEncodings" and "HasPrefix (CHR ''-'' # cs) e"
      by (auto simp: find_None_iff)
    with space_not_dash [of e] spaceEncodings_nonempty [of e] show False
      by (cases e) (auto simp: HasPrefix_def)
  qed
  then show ?thesis by (simp add: trimLeftSpace.simps)
qed

lemma trimRightSpace_dash:
  "s \<noteq> [] \<Longrightarrow> hd s = CHR ''-'' \<Longrightarrow> trimRightSpace s \<noteq> []"
proof (induction s rule: trimRightSpace.induct)
  case (1 s)
  show ?case
  proof (cases "find (HasSuffix s) spaceEncodings")
    case None
    with "1.prems" show ?thesis by (simp add: trimRightSpace.simps)
  next
    case (Some e)
    then have mem: "e \<in> set spaceEncodings" and suf: "HasSuffix s e"
      by (auto simp: find_Some_iff)
    have "length e \<noteq> length s"
    proof
      assume "length e = length s"
      with suf have "e = s" by (simp add: HasSuffix_def)
      with space_not_dash [OF mem] "1.prems" show False by simp
    qed
    with suf have lt: "length e < length s" by (simp add: HasSuffix_def)
    let ?s' = "take (length s - length e) s"
    from lt "1.prems" have "?s' \<noteq> []" and "hd ?s' = CHR ''-''"
      by (cases s; simp)+
    from "1.IH" [OF Some this] Some show ?thesis by (simp add: trimRightSpace.simps)
  qed
qed

lemma marker_not_blank:
  assumes "HasPrefix text ''---''"
  shows "length (TrimSpace text) \<noteq> 0"
proof -
  from assms obtain cs where "text = CHR ''-'' # cs"
    by (cases "text") (auto simp: HasPrefix_def)
  then show ?thesis
    using trimRightSpace_dash [of "text"] by (simp add: TrimSpace_def trimLeftSpace_dash)
qed

lemma marker_not_echo: "HasPrefix text ''---'' \<Longrightarrow> \<not> HasPrefix text ''directive''"
  by (cases "text") (auto simp: HasPrefix_def)

lemma loopBody_marker: "HasPrefix text ''---'' \<Longrightarrow> loopBody d pk text = Break"
  using marker_not_blank [of "text"] marker_not_echo [of "text"] by (simp add: loopBody_def)

lemma loopBody_Break: "loopBody d pk text = Break \<Longrightarrow> HasPrefix text ''---''"
  by (auto simp: loopBody_def Let_def split: if_splits prod.splits option.splits)

lemma fieldLoop_rest:
  "fieldLoop d pk ls = Inr (d', rest) \<Longrightarrow>
     rest = drop 1 (dropWhile (\<lambda>l. \<not> HasPrefix l ''---'') ls)"
proof (induction ls arbitrary: d pk)
  case Nil
  then show ?case by simp
next
  case (Cons l ls)
  show ?case
  proof (cases "loopBody d pk l")
    case (Continue d1 pk1)
    with loopBody_marker [of l d pk] have "\<not> HasPrefix l ''---''" by auto
    moreover from Continue Cons.prems have "fieldLoop d1 pk1 ls = Inr (d', rest)" by simp
    ultimately show ?thesis using Cons.IH by simp
  next
    case Break
    with Cons.prems loopBody_Break [OF Break] show ?thesis by simp
  next
    case (Fatal e)
    with Cons.prems show ?thesis by simp
  qed
qed

text \<open>
  Claim C3, as amended. In the first loop a line that begins with \<^verbatim>\<open>---\<close>, whatever
  follows the three dashes, ends the loop: the line is dropped, the record is as it
  was, and the lines after it go to the second loop. No other line does: when the
  first loop ends without error, the lines left to the second loop are those after
  the first line that begins with \<^verbatim>\<open>---\<close>.
\<close>

theorem body_starts_after_first_dashes_line:
  "(HasPrefix line ''---'' \<longrightarrow> fieldLoop d previousKey (line # rest) = Inr (d, rest))
   \<and> (fieldLoop d previousKey ls = Inr (d', rest') \<longrightarrow>
        rest' = drop 1 (dropWhile (\<lambda>l. \<not> HasPrefix l ''---'') ls))"
  using loopBody_marker [of line d previousKey] fieldLoop_rest [of d previousKey ls d' rest']
  by simp

theorem body_starts_after_first_dashes_line_witness:
  "HasPrefix ''--- more'' ''---''
   \<and> fieldLoop \<lparr>Name = ''Foo'', Description = ''a'', Syntax = [], Default = [], Date = [],
                 LastModification = ''T'', Content = []\<rparr> ''Description'' [''--- more'', ''body'', ''---'']
        = Inr (\<lparr>Name = ''Foo'', Description = ''a'', Syntax = [], Default = [], Date = [],
                 LastModification = ''T'', Content = []\<rparr>, [''body'', ''---''])
   \<and> [''body'', ''---''] =
        drop 1 (dropWhile (\<lambda>l. \<not> HasPrefix l ''---'') [''--- more'', ''body'', ''---''])"
proof -
  let ?d = "\<lparr>Name = ''Foo'', Description = ''a'', Syntax = [], Default = [], Date = [],
             LastModification = ''T'', Content = []\<rparr>"
  have h: "HasPrefix ''--- more'' ''---''" by code_simp
  note t = body_starts_after_first_dashes_line [where line = "''--- more''" and d = ?d
      and previousKey = "''Description''" and rest = "[''body'', ''---'']"
      and ls = "[''--- more'', ''body'', ''---'']" and d' = ?d and rest' = "[''body'', ''---'']"]
  from t h have a: "fieldLoop ?d ''Description'' [''--- more'', ''body'', ''---''] =
      Inr (?d, [''body'', ''---''])" by blast
  with t have b: "[''body'', ''---''] =
        drop 1 (dropWhile (\<lambda>l. \<not> HasPrefix l ''---'') [''--- more'', ''body'', ''---''])"
    by blast
  from h a b show ?thesis by blast
qed

text \<open>
  The claim as first stated, that only a line of dashes and nothing else ends the
  field lines, fails: \<^verbatim>\<open>---x\<close> is not such a line, and yet it is dropped and the line
  after it is body text.
\<close>

theorem dashes_with_trailing_text_counterexample:
  "\<not> list_all (\<lambda>c. c = CHR ''-'') ''---x''
   \<and> scanLines ''Description: a\<newline>---x\<newline>body'' = [''Description: a'', ''---x'', ''body'']
   \<and> parseDirective ''Foo'' ''Description: a\<newline>---x\<newline>body'' ''T'' =
         Inr \<lparr>Name = ''Foo'', Description = ''a'', Syntax = [], Default = [], Date = [],
              LastModification = ''T'', Content = ''body\<newline>''\<rparr>"
proof -
  have "\<not> list_all (\<lambda>c. c = CHR ''-'') ''---x''" by simp
  moreover have "scanLines ''Description: a\<newline>---x\<newline>body'' = [''Description: a'', ''---x'', ''body'']"
    by code_simp
  moreover have "parseDirective ''Foo'' ''Description: a\<newline>---x\<newline>body'' ''T'' =
         Inr \<lparr>Name = ''Foo'', Description = ''a'', Syntax = [], Default = [], Date = [],
              LastModification = ''T'', Content = ''body\<newline>''\<rparr>" by code_simp
  ultimately show ?thesis by blast
qed

section \<open>The decoration of notes and the body\<close>

lemma HasPrefix_prefix: "HasPrefix s p \<longleftrightarrow> prefix p s"
proof
  assume "HasPrefix s p"
  then have "take (length p) s = p" by (simp add: HasPrefix_def)
  then show "prefix p s" by (metis take_is_prefix)
next
  assume "prefix p s"
  then show "HasPrefix s p" by (auto simp: HasPrefix_def prefix_def)
qed

lemma Index_None_iff: "Index s sep = None \<longleftrightarrow> \<not> sublist sep s"
  by (induction s) (auto simp: HasPrefix_prefix sublist_Cons_right)

lemma decorateNote_absent: "\<not> sublist ''Note:'' s \<Longrightarrow> decorateNote s = s"
  by (simp add: decorateNote.simps Index_None_iff [symmetric])

lemma Note_no_border:
  assumes "\<not> prefix ''Note:'' p" and "p \<noteq> []"
  shows "\<not> prefix ''Note:'' (p @ ''Note:'' @ r)"
  using assms by (auto simp: prefix_append Cons_eq_append_conv)

lemma Index_first_Note:
  "\<not> sublist ''Note:'' p \<Longrightarrow> Index (p @ ''Note:'' @ r) ''Note:'' = Some (length p)"
proof (induction p)
  case Nil
  show ?case by (simp add: HasPrefix_def)
next
  case (Cons c cs)
  then have np: "\<not> prefix ''Note:'' (c # cs)" and ns: "\<not> sublist ''Note:'' cs"
    by (simp_all add: sublist_Cons_right)
  from np have "\<not> prefix ''Note:'' ((c # cs) @ ''Note:'' @ r)"
    by (rule Note_no_border) simp
  then have "\<not> HasPrefix (c # cs @ ''Note:'' @ r) ''Note:''" by (simp add: HasPrefix_prefix)
  with Cons.IH [OF ns] show ?case by simp
qed

lemma decorateNote_first:
  assumes "\<not> sublist ''Note:'' p"
  shows "decorateNote (p @ ''Note:'' @ r) = p @ ''**Note:**'' @ decorateNote r"
proof -
  have "decorateNote (p @ ''Note:'' @ r) =
          take (length p) (p @ ''Note:'' @ r) @ ''**Note:**''
            @ decorateNote (drop (length p + length ''Note:'') (p @ ''Note:'' @ r))"
    by (subst decorateNote.simps) (simp only: Index_first_Note [OF assms] option.case)
  then show ?thesis by simp
qed

lemma decorateNote_pieces:
  assumes "\<not> sublist ''Note:'' p" and "\<forall>q \<in> set qs. \<not> sublist ''Note:'' q"
  shows "decorateNote (p @ concat (map (\<lambda>q. ''Note:'' @ q) qs)) =
           p @ concat (map (\<lambda>q. ''**Note:**'' @ q) qs)"
  using assms
proof (induction qs arbitrary: p)
  case Nil
  then show ?case by (simp add: decorateNote_absent)
next
  case (Cons q qs)
  have "decorateNote (p @ concat (map (\<lambda>q. ''Note:'' @ q) (q # qs))) =
          decorateNote (p @ ''Note:'' @ (q @ concat (map (\<lambda>q. ''Note:'' @ q) qs)))"
    by simp
  also have "\<dots> = p @ ''**Note:**'' @ decorateNote (q @ concat (map (\<lambda>q. ''Note:'' @ q) qs))"
    using Cons.prems(1) by (rule decorateNote_first)
  also have "decorateNote (q @ concat (map (\<lambda>q. ''Note:'' @ q) qs)) =
          q @ concat (map (\<lambda>q. ''**Note:**'' @ q) qs)"
    using Cons.prems(2) by (intro Cons.IH) simp_all
  finally show ?case by simp
qed

lemma parseDirective_Content:
  assumes "parseDirective name doc now = Inr d"
  shows "Content d = concat (map (\<lambda>l. decorateNote l @ [CHR 0x0A])
           (drop 1 (dropWhile (\<lambda>l. \<not> HasPrefix l ''---'') (scanLines doc))))"
proof -
  let ?d0 = "\<lparr>Name = name, Description = [], Syntax = [], Default = [], Date = [],
              LastModification = now, Content = []\<rparr>"
  from assms obtain d' rest where
    fl: "fieldLoop ?d0 [] (scanLines doc) = Inr (d', rest)" and d: "d = bodyLoop d' rest"
    by (auto simp: parseDirective_def split: sum.splits)
  from fieldLoop_keeps [OF fl] have "Content d' = []" by simp
  with d fieldLoop_rest [OF fl] show ?thesis by (simp add: bodyLoop_Content)
qed

text \<open>
  Claim C5. On a line of the body every occurrence of \<^verbatim>\<open>Note:\<close> is replaced by
  \<^verbatim>\<open>**Note:**\<close> and the rest of the line is unchanged: a line made of pieces free of
  \<^verbatim>\<open>Note:\<close> with \<^verbatim>\<open>Note:\<close> between them becomes the same pieces with \<^verbatim>\<open>**Note:**\<close>
  between them. A line with no \<^verbatim>\<open>Note:\<close> is unchanged. \<open>Content\<close> is made of the
  lines after the line that ends the field lines, in order, each decorated and
  followed by a newline.
\<close>

theorem body_lines_decorated:
  "(\<not> sublist ''Note:'' p \<and> (\<forall>q \<in> set qs. \<not> sublist ''Note:'' q) \<longrightarrow>
      decorateNote (p @ concat (map (\<lambda>q. ''Note:'' @ q) qs)) =
        p @ concat (map (\<lambda>q. ''**Note:**'' @ q) qs))
   \<and> (\<not> sublist ''Note:'' s \<longrightarrow> decorateNote s = s)
   \<and> (parseDirective name doc now = Inr d \<longrightarrow>
        Content d = concat (map (\<lambda>l. decorateNote l @ [CHR 0x0A])
           (drop 1 (dropWhile (\<lambda>l. \<not> HasPrefix l ''---'') (scanLines doc)))))"
  using decorateNote_pieces [of p qs] decorateNote_absent [of s]
    parseDirective_Content [of name doc now d]
  by blast

theorem body_lines_decorated_witness:
  "\<not> sublist ''Note:'' ''a '' \<and> \<not> sublist ''Note:'' '' b, Note '' \<and> \<not> sublist ''Note:'' []
   \<and> decorateNote ''a Note: b, Note Note:'' = ''a **Note:** b, Note **Note:**''
   \<and> \<not> sublist ''Note:'' ''a Note : b'' \<and> decorateNote ''a Note : b'' = ''a Note : b''
   \<and> parseDirective ''Foo'' (''Syntax: s'' @ [CHR 0x0A] @ ''---'' @ [CHR 0x0A] @ ''Note: x''
         @ [CHR 0x0D, CHR 0x0A, CHR 0x0A] @ ''plain'') ''T''
       = Inr \<lparr>Name = ''Foo'', Description = [], Syntax = ''s'', Default = [], Date = [],
              LastModification = ''T'',
              Content = ''**Note:** x'' @ [CHR 0x0A, CHR 0x0A] @ ''plain'' @ [CHR 0x0A]\<rparr>
   \<and> Content \<lparr>Name = ''Foo'', Description = [], Syntax = ''s'', Default = [], Date = [],
              LastModification = ''T'',
              Content = ''**Note:** x'' @ [CHR 0x0A, CHR 0x0A] @ ''plain'' @ [CHR 0x0A]\<rparr>
       = concat (map (\<lambda>l. decorateNote l @ [CHR 0x0A])
           (drop 1 (dropWhile (\<lambda>l. \<not> HasPrefix l ''---'')
              (scanLines (''Syntax: s'' @ [CHR 0x0A] @ ''---'' @ [CHR 0x0A] @ ''Note: x''
                 @ [CHR 0x0D, CHR 0x0A, CHR 0x0A] @ ''plain'')))))"
proof -
  let ?doc = "''Syntax: s'' @ [CHR 0x0A] @ ''---'' @ [CHR 0x0A] @ ''Note: x''
         @ [CHR 0x0D, CHR 0x0A, CHR 0x0A] @ ''plain''"
  let ?d = "\<lparr>Name = ''Foo'', Description = [], Syntax = ''s'', Default = [], Date = [],
              LastModification = ''T'',
              Content = ''**Note:** x'' @ [CHR 0x0A, CHR 0x0A] @ ''plain'' @ [CHR 0x0A]\<rparr>"
  have n1: "\<not> sublist ''Note:'' ''a ''" by code_simp
  have n2: "\<not> sublist ''Note:'' '' b, Note ''" by code_simp
  have n3: "\<not> sublist ''Note:'' []" by code_simp
  have n4: "\<not> sublist ''Note:'' ''a Note : b''" by code_simp
  have pd: "parseDirective ''Foo'' ?doc ''T'' = Inr ?d" by code_simp
  note t = body_lines_decorated [where p = "''a ''" and qs = "['' b, Note '', []]"
      and s = "''a Note : b''" and name = "''Foo''" and doc = ?doc and now = "''T''" and d = ?d]
  from t n1 n2 n3 have a: "decorateNote ''a Note: b, Note Note:'' = ''a **Note:** b, Note **Note:**''"
    by simp
  from t n4 have b: "decorateNote ''a Note : b'' = ''a Note : b''" by blast
  from t pd have c: "Content ?d = concat (map (\<lambda>l. decorateNote l @ [CHR 0x0A])
           (drop 1 (dropWhile (\<lambda>l. \<not> HasPrefix l ''---'') (scanLines ?doc))))" by blast
  from n1 n2 n3 n4 a b pd c show ?thesis by blast
qed

section \<open>The three fields as concatenations\<close>

lemma fieldAppenders_Some:
  "fieldAppenders ''Description'' = Some (\<lambda>d v. d\<lparr>Description := Description d @ v\<rparr>)"
  "fieldAppenders ''Syntax'' = Some (\<lambda>d v. d\<lparr>Syntax := Syntax d @ v\<rparr>)"
  "fieldAppenders ''Default'' = Some (\<lambda>d v. d\<lparr>Default := Default d @ v\<rparr>)"
  by (simp_all add: fieldAppenders_def)

lemma loopBody_key_line:
  assumes "\<not> HasPrefix l ''directive''" and "TrimSpace l \<noteq> []" and "\<not> HasPrefix l ''---''"
    and "Cut l '': '' = (k, v, True)" and "fieldAppenders k = Some fn"
  shows "loopBody d pk l = Continue (fn d v) k"
  using assms by (simp add: loopBody_def)

lemma loopBody_continuation_line:
  assumes "\<not> HasPrefix l ''directive''" and "TrimSpace l \<noteq> []" and "\<not> HasPrefix l ''---''"
    and "Cut l '': '' = (k, v, False)" and "fieldAppenders pk = Some fn"
  shows "loopBody d pk l = Continue (fn d ('' '' @ l)) pk"
  using assms by (simp add: loopBody_def)

lemma loopBody_ignored:
  assumes "HasPrefix l ''directive'' \<or> TrimSpace l = []"
  shows "loopBody d pk l = Continue d pk"
  using assms by (auto simp: loopBody_def)

lemma appender_fields:
  assumes "fieldAppenders k = Some fn"
  shows "Description (fn d v) = Description d @ (if k = ''Description'' then v else [])"
    and "Syntax (fn d v) = Syntax d @ (if k = ''Syntax'' then v else [])"
    and "Default (fn d v) = Default d @ (if k = ''Default'' then v else [])"
  using fieldAppenders_cases [OF assms] by auto

lemma key_has_appender:
  assumes "k \<in> {''Description'', ''Syntax'', ''Default''}"
  shows "\<exists>fn. fieldAppenders k = Some fn" and "k \<noteq> []"
  using assms fieldAppenders_None [of k] by auto

lemma attributed_key_line:
  assumes "\<not> (HasPrefix l ''directive'' \<or> TrimSpace l = [])" and "Cut l '': '' = (k, v, True)"
  shows "concat (specAttributed field pk (l # ls)) =
           (if k = field then v else []) @ concat (specAttributed field k ls)"
  using assms by simp

lemma attributed_continuation_line:
  assumes "\<not> (HasPrefix l ''directive'' \<or> TrimSpace l = [])" and "Cut l '': '' = (k, v, False)"
  shows "concat (specAttributed field pk (l # ls)) =
           (if pk = field then '' '' @ l else []) @ concat (specAttributed field pk ls)"
  using assms by simp

lemma fieldLoop_attributed:
  assumes "specFieldLinesOnly (pk \<noteq> []) ls"
    and "pk = [] \<or> pk \<in> {''Description'', ''Syntax'', ''Default''}"
  shows "\<exists>d' pk'. (\<forall>more. fieldLoop d pk (ls @ more) = fieldLoop d' pk' more)
     \<and> Description d' = Description d @ concat (specAttributed ''Description'' pk ls)
     \<and> Syntax d' = Syntax d @ concat (specAttributed ''Syntax'' pk ls)
     \<and> Default d' = Default d @ concat (specAttributed ''Default'' pk ls)"
  using assms
proof (induction ls arbitrary: d pk)
  case Nil
  show ?case by (intro exI [of _ d] exI [of _ pk]) simp
next
  case (Cons l ls)
  show ?case
  proof (cases "HasPrefix l ''directive'' \<or> TrimSpace l = []")
    case True
    with Cons.prems(1) have "specFieldLinesOnly (pk \<noteq> []) ls" by simp
    from Cons.IH [OF this Cons.prems(2), of d] True loopBody_ignored [OF True]
    show ?thesis by simp
  next
    case False
    with Cons.prems(1) have nm: "\<not> HasPrefix l ''---''" by (simp split: if_splits)
    from False have ne: "\<not> HasPrefix l ''directive''" and nb: "TrimSpace l \<noteq> []" by simp_all
    obtain k v ok where cut: "Cut l '': '' = (k, v, ok)" by (cases "Cut l '': ''") auto
    show ?thesis
    proof (cases ok)
      case True
      with cut have cut': "Cut l '': '' = (k, v, True)" by simp
      from Cons.prems(1) False nm cut'
      have key: "k \<in> {''Description'', ''Syntax'', ''Default''}" and wf0: "specFieldLinesOnly True ls"
        by simp_all
      from key_has_appender [OF key] obtain fn where fn: "fieldAppenders k = Some fn"
        and kne: "k \<noteq> []" by blast
      from wf0 kne have wf: "specFieldLinesOnly (k \<noteq> []) ls" by simp
      have step: "loopBody d pk l = Continue (fn d v) k"
        using ne nb nm cut' fn by (rule loopBody_key_line)
      from key have "k = [] \<or> k \<in> {''Description'', ''Syntax'', ''Default''}" by blast
      from Cons.IH [OF wf this, of "fn d v"] obtain d' pk' where
        run: "\<forall>more. fieldLoop (fn d v) k (ls @ more) = fieldLoop d' pk' more"
        and de: "Description d' = Description (fn d v) @ concat (specAttributed ''Description'' k ls)"
        and sy: "Syntax d' = Syntax (fn d v) @ concat (specAttributed ''Syntax'' k ls)"
        and df: "Default d' = Default (fn d v) @ concat (specAttributed ''Default'' k ls)"
        by blast
      from run step have "\<forall>more. fieldLoop d pk ((l # ls) @ more) = fieldLoop d' pk' more"
        by simp
      moreover have "Description d' = Description d @ concat (specAttributed ''Description'' pk (l # ls))"
        unfolding attributed_key_line [OF False cut'] de appender_fields(1) [OF fn] by simp
      moreover have "Syntax d' = Syntax d @ concat (specAttributed ''Syntax'' pk (l # ls))"
        unfolding attributed_key_line [OF False cut'] sy appender_fields(2) [OF fn] by simp
      moreover have "Default d' = Default d @ concat (specAttributed ''Default'' pk (l # ls))"
        unfolding attributed_key_line [OF False cut'] df appender_fields(3) [OF fn] by simp
      ultimately show ?thesis by blast
    next
      case no: False
      with cut have cut': "Cut l '': '' = (k, v, False)" by simp
      from Cons.prems(1) False nm cut'
      have est: "pk \<noteq> []" and wf: "specFieldLinesOnly (pk \<noteq> []) ls"
        by auto
      with Cons.prems(2) have key: "pk \<in> {''Description'', ''Syntax'', ''Default''}" by blast
      from key_has_appender [OF key] obtain fn where fn: "fieldAppenders pk = Some fn" by blast
      have step: "loopBody d pk l = Continue (fn d ('' '' @ l)) pk"
        using ne nb nm cut' fn by (rule loopBody_continuation_line)
      from Cons.IH [OF wf Cons.prems(2), of "fn d ('' '' @ l)"] obtain d' pk' where
        run: "\<forall>more. fieldLoop (fn d ('' '' @ l)) pk (ls @ more) = fieldLoop d' pk' more"
        and de: "Description d' = Description (fn d ('' '' @ l)) @ concat (specAttributed ''Description'' pk ls)"
        and sy: "Syntax d' = Syntax (fn d ('' '' @ l)) @ concat (specAttributed ''Syntax'' pk ls)"
        and df: "Default d' = Default (fn d ('' '' @ l)) @ concat (specAttributed ''Default'' pk ls)"
        by blast
      from run step have "\<forall>more. fieldLoop d pk ((l # ls) @ more) = fieldLoop d' pk' more"
        by simp
      moreover have "Description d' = Description d @ concat (specAttributed ''Description'' pk (l # ls))"
        unfolding attributed_continuation_line [OF False cut'] de appender_fields(1) [OF fn] by simp
      moreover have "Syntax d' = Syntax d @ concat (specAttributed ''Syntax'' pk (l # ls))"
        unfolding attributed_continuation_line [OF False cut'] sy appender_fields(2) [OF fn] by simp
      moreover have "Default d' = Default d @ concat (specAttributed ''Default'' pk (l # ls))"
        unfolding attributed_continuation_line [OF False cut'] df appender_fields(3) [OF fn] by simp
      ultimately show ?thesis by blast
    qed
  qed
qed

text \<open>
  Claim C4. For every doc comment whose field lines (the lines before the first
  line that begins with \<^verbatim>\<open>---\<close>, all lines when there is none) are only recognized
  field lines, blank lines, echo lines and continuation lines, \<open>parseDirective\<close>
  returns a record, and each of \<open>Description\<close>, \<open>Syntax\<close> and \<open>Default\<close> is the
  concatenation, in source order, of what the lines give to that field: the value of
  each of its field lines, and each continuation line attributed to it with a single
  space before it. A field that no line gives anything to is empty.
\<close>

theorem fields_are_concatenations:
  assumes "specFieldLinesOnly False (takeWhile (\<lambda>l. \<not> HasPrefix l ''---'') (scanLines doc))"
  shows "\<exists>d. parseDirective name doc now = Inr d
     \<and> Description d = concat (specAttributed ''Description'' []
          (takeWhile (\<lambda>l. \<not> HasPrefix l ''---'') (scanLines doc)))
     \<and> Syntax d = concat (specAttributed ''Syntax'' []
          (takeWhile (\<lambda>l. \<not> HasPrefix l ''---'') (scanLines doc)))
     \<and> Default d = concat (specAttributed ''Default'' []
          (takeWhile (\<lambda>l. \<not> HasPrefix l ''---'') (scanLines doc)))"
proof -
  let ?d0 = "\<lparr>Name = name, Description = [], Syntax = [], Default = [], Date = [],
              LastModification = now, Content = []\<rparr>"
  let ?fl = "takeWhile (\<lambda>l. \<not> HasPrefix l ''---'') (scanLines doc)"
  let ?more = "dropWhile (\<lambda>l. \<not> HasPrefix l ''---'') (scanLines doc)"
  from assms have "specFieldLinesOnly (([]::string) \<noteq> []) ?fl" by simp
  from fieldLoop_attributed [OF this, of ?d0] obtain d' pk' where
    run: "\<forall>more. fieldLoop ?d0 [] (?fl @ more) = fieldLoop d' pk' more"
    and de: "Description d' = concat (specAttributed ''Description'' [] ?fl)"
    and sy: "Syntax d' = concat (specAttributed ''Syntax'' [] ?fl)"
    and df: "Default d' = concat (specAttributed ''Default'' [] ?fl)"
    by auto
  from run have "fieldLoop ?d0 [] (?fl @ ?more) = fieldLoop d' pk' ?more" by blast
  then have eq: "fieldLoop ?d0 [] (scanLines doc) = fieldLoop d' pk' ?more" by simp
  have "fieldLoop d' pk' ?more = Inr (d', drop 1 ?more)"
  proof (cases ?more)
    case Nil
    show ?thesis unfolding Nil by simp
  next
    case (Cons m ms)
    then have "HasPrefix m ''---''" using hd_dropWhile [of "\<lambda>l. \<not> HasPrefix l ''---''" "scanLines doc"]
      by simp
    with Cons show ?thesis by (simp add: loopBody_marker)
  qed
  with eq have "parseDirective name doc now = Inr (bodyLoop d' (drop 1 ?more))"
    by (simp add: parseDirective_def)
  with de sy df bodyLoop_keeps [of d' "drop 1 ?more"] show ?thesis by simp
qed

theorem fields_are_concatenations_witness:
  "specFieldLinesOnly False (takeWhile (\<lambda>l. \<not> HasPrefix l ''---'')
     (scanLines (''directiveFoo'' @ [CHR 0x0A] @ ''Description: does a thing.'' @ [CHR 0x0A]
        @ ''  and more.'' @ [CHR 0x0A, CHR 0x0A] @ ''Syntax: Foo on|off'' @ [CHR 0x0A]
        @ ''Default: off'' @ [CHR 0x0A] @ ''---'' @ [CHR 0x0A] @ ''Note: use with care.'' @ [CHR 0x0A])))
   \<and> (\<exists>d. parseDirective ''Foo''
        (''directiveFoo'' @ [CHR 0x0A] @ ''Description: does a thing.'' @ [CHR 0x0A]
        @ ''  and more.'' @ [CHR 0x0A, CHR 0x0A] @ ''Syntax: Foo on|off'' @ [CHR 0x0A]
        @ ''Default: off'' @ [CHR 0x0A] @ ''---'' @ [CHR 0x0A] @ ''Note: use with care.'' @ [CHR 0x0A])
        ''T'' = Inr d
      \<and> Description d = ''does a thing.   and more.''
      \<and> Syntax d = ''Foo on|off''
      \<and> Default d = ''off'')"
proof -
  let ?doc = "''directiveFoo'' @ [CHR 0x0A] @ ''Description: does a thing.'' @ [CHR 0x0A]
        @ ''  and more.'' @ [CHR 0x0A, CHR 0x0A] @ ''Syntax: Foo on|off'' @ [CHR 0x0A]
        @ ''Default: off'' @ [CHR 0x0A] @ ''---'' @ [CHR 0x0A] @ ''Note: use with care.'' @ [CHR 0x0A]"
  have h: "specFieldLinesOnly False (takeWhile (\<lambda>l. \<not> HasPrefix l ''---'') (scanLines ?doc))"
    by code_simp
  have a: "concat (specAttributed ''Description'' []
          (takeWhile (\<lambda>l. \<not> HasPrefix l ''---'') (scanLines ?doc))) = ''does a thing.   and more.''"
    by code_simp
  have b: "concat (specAttributed ''Syntax'' []
          (takeWhile (\<lambda>l. \<not> HasPrefix l ''---'') (scanLines ?doc))) = ''Foo on|off''"
    by code_simp
  have c: "concat (specAttributed ''Default'' []
          (takeWhile (\<lambda>l. \<not> HasPrefix l ''---'') (scanLines ?doc))) = ''off''"
    by code_simp
  from fields_are_concatenations [OF h, of "''Foo''" "''T''"] h show ?thesis
    unfolding a b c by blast
qed

section \<open>Which declarations get a file\<close>

lemma visitFuncDecl_skipped:
  assumes "\<not> (HasPrefix (fnName fn) ''directive'' \<and> Doc fn \<noteq> None)"
  shows "visitFuncDecl e tmpl w fn = (w, None)"
  using assms by (auto simp: visitFuncDecl_def)

lemma visitFuncDecl_dom:
  assumes "visitFuncDecl e tmpl w fn = (w', err)"
  shows "dom (files w') = dom (files w) \<union>
           (if HasPrefix (fnName fn) ''directive'' \<and> Doc fn \<noteq> None
               \<and> createOK e (outputPath (drop 9 (fnName fn)))
            then {outputPath (drop 9 (fnName fn))} else {})"
  using assms
  by (auto simp: visitFuncDecl_def Let_def split: if_splits option.splits sum.splits)

lemma visitFuncDecl_no_error:
  assumes "visitFuncDecl e tmpl w fn = (w', None)"
    and "HasPrefix (fnName fn) ''directive''" and "Doc fn \<noteq> None"
  shows "createOK e (outputPath (drop 9 (fnName fn)))"
  using assms
  by (auto simp: visitFuncDecl_def Let_def split: if_splits option.splits sum.splits)

lemma Inspect_dom_subset:
  "Inspect e tmpl w fns = (w', err) \<Longrightarrow>
     dom (files w') \<subseteq> dom (files w) \<union>
       (\<lambda>fn. outputPath (drop 9 (fnName fn))) `
         {fn \<in> set fns. HasPrefix (fnName fn) ''directive'' \<and> Doc fn \<noteq> None}"
proof (induction fns arbitrary: w)
  case Nil
  then show ?case by simp
next
  case (Cons fn fns)
  obtain w1 e1 where v: "visitFuncDecl e tmpl w fn = (w1, e1)"
    by (cases "visitFuncDecl e tmpl w fn") auto
  note d = visitFuncDecl_dom [OF v]
  show ?case
  proof (cases e1)
    case None
    with v Cons.prems have "Inspect e tmpl w1 fns = (w', err)" by simp
    from Cons.IH [OF this] d show ?thesis by (auto split: if_splits)
  next
    case (Some x)
    with v Cons.prems have "w' = w1" by simp
    with d show ?thesis by (auto split: if_splits)
  qed
qed

lemma Inspect_dom_complete:
  "Inspect e tmpl w fns = (w', None) \<Longrightarrow>
     dom (files w') = dom (files w) \<union>
       (\<lambda>fn. outputPath (drop 9 (fnName fn))) `
         {fn \<in> set fns. HasPrefix (fnName fn) ''directive'' \<and> Doc fn \<noteq> None}"
proof (induction fns arbitrary: w)
  case Nil
  then show ?case by simp
next
  case (Cons fn fns)
  obtain w1 e1 where v: "visitFuncDecl e tmpl w fn = (w1, e1)"
    by (cases "visitFuncDecl e tmpl w fn") auto
  with Cons.prems have e1: "e1 = None" and run: "Inspect e tmpl w1 fns = (w', None)"
    by (cases e1; simp)+
  note d = visitFuncDecl_dom [OF v]
  note c = visitFuncDecl_no_error [OF v [unfolded e1]]
  from Cons.IH [OF run] d c show ?case by (auto split: if_splits)
qed

text \<open>
  Claim C6, as amended. A function declaration gets an output file if and only if
  its name begins with \<^verbatim>\<open>directive\<close> and it has a doc comment attached, whether the
  text of that comment is empty or not (\<^verbatim>\<open>fn.Doc\<close> is not nil; the group of comments
  is tested, not its text). A declaration that fails either test is skipped: the
  files are as before and there is no error. A declaration that passes both has its
  file once \<^verbatim>\<open>os.Create\<close> has succeeded. In every run, the files that exist at its
  end and not at its start are files of declarations that pass both tests; in a run
  that ends without a fatal error, they are the files of all of them.
\<close>

theorem file_iff_prefix_and_doc:
  "(\<not> (HasPrefix (fnName fn) ''directive'' \<and> Doc fn \<noteq> None) \<longrightarrow>
      visitFuncDecl e tmpl w fn = (w, None))
   \<and> (HasPrefix (fnName fn) ''directive'' \<and> Doc fn \<noteq> None
        \<and> createOK e (outputPath (drop 9 (fnName fn))) \<longrightarrow>
      outputPath (drop 9 (fnName fn)) \<in> dom (files (fst (visitFuncDecl e tmpl w fn))))
   \<and> (Inspect e tmpl w fns = (w', err) \<longrightarrow>
      dom (files w') \<subseteq> dom (files w) \<union>
        (\<lambda>fn. outputPath (drop 9 (fnName fn))) `
          {fn \<in> set fns. HasPrefix (fnName fn) ''directive'' \<and> Doc fn \<noteq> None})
   \<and> (Inspect e tmpl w fns = (w', None) \<longrightarrow>
      dom (files w') = dom (files w) \<union>
        (\<lambda>fn. outputPath (drop 9 (fnName fn))) `
          {fn \<in> set fns. HasPrefix (fnName fn) ''directive'' \<and> Doc fn \<noteq> None})"
proof -
  have b: "outputPath (drop 9 (fnName fn)) \<in> dom (files (fst (visitFuncDecl e tmpl w fn)))"
    if "HasPrefix (fnName fn) ''directive'' \<and> Doc fn \<noteq> None
        \<and> createOK e (outputPath (drop 9 (fnName fn)))"
  proof -
    obtain w1 e1 where v: "visitFuncDecl e tmpl w fn = (w1, e1)"
      by (cases "visitFuncDecl e tmpl w fn") auto
    from visitFuncDecl_dom [OF v] that v show ?thesis by simp
  qed
  from visitFuncDecl_skipped [of fn e tmpl w] b
    Inspect_dom_subset [of e tmpl w fns w' err] Inspect_dom_complete [of e tmpl w fns w']
  show ?thesis by blast
qed

theorem file_iff_prefix_and_doc_witness:
  "visitFuncDecl sampleEnv sampleTemplate noFiles helperDecl = (noFiles, None)
   \<and> visitFuncDecl sampleEnv sampleTemplate noFiles undocumentedDecl = (noFiles, None)
   \<and> outputPath ''Bar'' \<in> dom (files (fst (visitFuncDecl sampleEnv sampleTemplate noFiles barDecl)))
   \<and> snd (Inspect sampleEnv sampleTemplate noFiles [helperDecl, undocumentedDecl, barDecl]) = None
   \<and> dom (files (fst (Inspect sampleEnv sampleTemplate noFiles [helperDecl, undocumentedDecl, barDecl]))) = {outputPath ''Bar''}"
proof -
  let ?e = "sampleEnv"
  let ?t = "sampleTemplate"
  let ?w = "noFiles"
  let ?h = "helperDecl"
  let ?n = "undocumentedDecl"
  let ?b = "barDecl"
  have h: "\<not> (HasPrefix (fnName ?h) ''directive'' \<and> Doc ?h \<noteq> None)"
    by (simp add: HasPrefix_def)
  have n: "\<not> (HasPrefix (fnName ?n) ''directive'' \<and> Doc ?n \<noteq> None)"
    by simp
  have b: "HasPrefix (fnName ?b) ''directive'' \<and> Doc ?b \<noteq> None
        \<and> createOK ?e (outputPath (drop 9 (fnName ?b)))"
    by (simp add: HasPrefix_def)
  have ok: "snd (Inspect ?e ?t ?w [?h, ?n, ?b]) = None" by code_simp
  then have run: "Inspect ?e ?t ?w [?h, ?n, ?b] = (fst (Inspect ?e ?t ?w [?h, ?n, ?b]), None)"
    by (simp add: prod_eq_iff)
  have acc: "(\<lambda>fn. outputPath (drop 9 (fnName fn))) `
          {fn \<in> set [?h, ?n, ?b]. HasPrefix (fnName fn) ''directive'' \<and> Doc fn \<noteq> None}
        = {outputPath ''Bar''}"
    unfolding set_filter [symmetric] using h n b by simp
  have a1: "visitFuncDecl ?e ?t ?w ?h = (?w, None)"
    using file_iff_prefix_and_doc [where fn = ?h and e = ?e and tmpl = ?t and w = ?w] h by blast
  have a2: "visitFuncDecl ?e ?t ?w ?n = (?w, None)"
    using file_iff_prefix_and_doc [where fn = ?n and e = ?e and tmpl = ?t and w = ?w] n by blast
  have a3: "outputPath ''Bar'' \<in> dom (files (fst (visitFuncDecl ?e ?t ?w ?b)))"
    using file_iff_prefix_and_doc [where fn = ?b and e = ?e and tmpl = ?t and w = ?w] b by simp
  have a4: "dom (files (fst (Inspect ?e ?t ?w [?h, ?n, ?b]))) = {outputPath ''Bar''}"
    using file_iff_prefix_and_doc [where e = ?e and tmpl = ?t and w = ?w
        and fns = "[?h, ?n, ?b]" and w' = "fst (Inspect ?e ?t ?w [?h, ?n, ?b])"] run
    unfolding acc by simp
  from a1 a2 a3 ok a4 show ?thesis by blast
qed

text \<open>
  The claim as first stated, that a declaration needs a non-empty doc comment to get
  a file, fails: \<^verbatim>\<open>directiveBar\<close> with an attached doc comment whose text is empty is
  not skipped. Its page \<^verbatim>\<open>Bar.md\<close> is written, with every field empty, and there is no
  error.
\<close>

theorem empty_doc_comment_counterexample:
  "HasPrefix (fnName emptyDocDecl) ''directive''
   \<and> Doc emptyDocDecl = Some []
   \<and> files noFiles ''./content/docs/seclang/directives/Bar.md'' = None
   \<and> parseDirective ''Bar'' [] ''T'' =
        Inr \<lparr>Name = ''Bar'', Description = [], Syntax = [], Default = [], Date = [],
             LastModification = ''T'', Content = []\<rparr>
   \<and> snd (visitFuncDecl sampleEnv sampleTemplate noFiles emptyDocDecl) = None
   \<and> files (fst (visitFuncDecl sampleEnv sampleTemplate noFiles emptyDocDecl))
         ''./content/docs/seclang/directives/Bar.md'' = Some ''Bar|''"
proof -
  have "HasPrefix (fnName emptyDocDecl) ''directive''" by (simp add: HasPrefix_def)
  moreover have "Doc emptyDocDecl = Some []" by simp
  moreover have "files noFiles ''./content/docs/seclang/directives/Bar.md'' = None" by simp
  moreover have "parseDirective ''Bar'' [] ''T'' =
        Inr \<lparr>Name = ''Bar'', Description = [], Syntax = [], Default = [], Date = [],
             LastModification = ''T'', Content = []\<rparr>" by code_simp
  moreover have "snd (visitFuncDecl sampleEnv sampleTemplate noFiles emptyDocDecl) = None"
    by code_simp
  moreover have "files (fst (visitFuncDecl sampleEnv sampleTemplate noFiles emptyDocDecl))
         ''./content/docs/seclang/directives/Bar.md'' = Some ''Bar|''"
    by code_simp
  ultimately show ?thesis by blast
qed

section \<open>A fatal error in a doc comment\<close>

text \<open>
  Claim C2, as amended. When the doc comment of a declaration stops with an
  unknown-field error, the file of that declaration has been created, or truncated,
  before the doc comment was parsed: it is left empty, nothing is written to it, all
  other files are as before, and no later declaration is visited, so none of them
  gets a file.
\<close>

theorem unknown_field_leaves_empty_file:
  assumes "HasPrefix (fnName fn) ''directive''" and "Doc fn = Some docText"
    and "createOK e (outputPath (drop 9 (fnName fn)))"
    and "parseDirective (drop 9 (fnName fn)) docText (timeNow e (clock w)) = Inl (UnknownField key)"
  shows "Inspect e tmpl w (fn # rest) =
           (w\<lparr>files := (files w)(outputPath (drop 9 (fnName fn)) \<mapsto> []), clock := Suc (clock w)\<rparr>,
            Some (UnknownField key))"
  using assms by (simp add: visitFuncDecl_def)

theorem unknown_field_leaves_empty_file_witness:
  "HasPrefix (fnName bogusDecl) ''directive'' \<and> Doc bogusDecl = Some ''Bogus: x''
   \<and> createOK sampleEnv (outputPath (drop 9 (fnName bogusDecl)))
   \<and> parseDirective ''Foo'' ''Bogus: x'' ''T'' = Inl (UnknownField ''Bogus'')
   \<and> Inspect sampleEnv sampleTemplate noFiles [bogusDecl, barDecl] =
        (\<lparr>files = [outputPath ''Foo'' \<mapsto> []], clock = Suc 0\<rparr>, Some (UnknownField ''Bogus''))"
proof -
  let ?e = "sampleEnv"
  let ?t = "sampleTemplate"
  let ?w = "noFiles"
  let ?f = "bogusDecl"
  let ?b = "barDecl"
  have h1: "HasPrefix (fnName ?f) ''directive''" by (simp add: HasPrefix_def)
  have h2: "Doc ?f = Some ''Bogus: x''" by simp
  have h3: "createOK ?e (outputPath (drop 9 (fnName ?f)))" by simp
  have p: "parseDirective ''Foo'' ''Bogus: x'' ''T'' = Inl (UnknownField ''Bogus'')" by code_simp
  then have h4: "parseDirective (drop 9 (fnName ?f)) ''Bogus: x'' (timeNow ?e (clock ?w))
      = Inl (UnknownField ''Bogus'')" by simp
  from unknown_field_leaves_empty_file [OF h1 h2 h3 h4, of ?t "[?b]"] h1 h2 h3 p
  show ?thesis by simp
qed

text \<open>
  The claim as first stated, no file for the declaration whose doc comment fails,
  does not hold: with no file at the start, the page of \<^verbatim>\<open>directiveFoo\<close> exists, empty,
  when the run stops on its doc comment \<^verbatim>\<open>Bogus: x\<close>.
\<close>

theorem file_created_before_abort_counterexample:
  "parseDirective ''Foo'' ''Bogus: x'' ''T'' = Inl (UnknownField ''Bogus'')
   \<and> files noFiles ''./content/docs/seclang/directives/Foo.md'' = None
   \<and> snd (Inspect sampleEnv sampleTemplate noFiles [bogusDecl, barDecl]) = Some (UnknownField ''Bogus'')
   \<and> files (fst (Inspect sampleEnv sampleTemplate noFiles [bogusDecl, barDecl])) ''./content/docs/seclang/directives/Foo.md'' = Some []"
proof -
  have "parseDirective ''Foo'' ''Bogus: x'' ''T'' = Inl (UnknownField ''Bogus'')" by code_simp
  moreover have "files noFiles ''./content/docs/seclang/directives/Foo.md'' = None" by simp
  moreover have "snd (Inspect sampleEnv sampleTemplate noFiles [bogusDecl, barDecl]) = Some (UnknownField ''Bogus'')" by code_simp
  moreover have "files (fst (Inspect sampleEnv sampleTemplate noFiles [bogusDecl, barDecl])) ''./content/docs/seclang/directives/Foo.md'' = Some []"
    by code_simp
  ultimately show ?thesis by blast
qed

section \<open>The name of a directive\<close>

lemma parseDirective_Name:
  assumes "parseDirective name doc now = Inr d"
  shows "Name d = name"
proof -
  let ?d0 = "\<lparr>Name = name, Description = [], Syntax = [], Default = [], Date = [],
              LastModification = now, Content = []\<rparr>"
  from assms obtain d' rest where
    fl: "fieldLoop ?d0 [] (scanLines doc) = Inr (d', rest)" and d: "d = bodyLoop d' rest"
    by (auto simp: parseDirective_def split: sum.splits)
  from fieldLoop_keeps [OF fl] have "Name d' = name" by simp
  with d bodyLoop_keeps [of d' rest] show ?thesis by simp
qed

lemma HasPrefix_directive:
  assumes "HasPrefix s ''directive''"
  shows "s = ''directive'' @ drop 9 s"
proof -
  have len: "length ''directive'' = 9" by simp
  from assms have "take (length ''directive'') s = ''directive''" by (simp only: HasPrefix_def)
  then have "take 9 s = ''directive''" by (simp only: len)
  then show ?thesis using append_take_drop_id [of 9 s] by simp
qed

lemma visitFuncDecl_success:
  assumes "HasPrefix (fnName fn) ''directive''" and "Doc fn = Some docText"
    and "visitFuncDecl e tmpl w fn = (w', None)"
  shows "\<exists>d content.
           parseDirective (drop 9 (fnName fn)) docText (timeNow e (clock w)) = Inr d
         \<and> tmpl d = Some content
         \<and> files w' (outputPath (drop 9 (fnName fn))) = Some (UnescapeString e content)"
proof -
  let ?n = "drop 9 (fnName fn)"
  let ?p = "outputPath ?n"
  show ?thesis
  proof (cases "createOK e ?p")
    case False
    with assms show ?thesis by (simp add: visitFuncDecl_def)
  next
    case ok: True
    show ?thesis
    proof (cases "parseDirective ?n docText (timeNow e (clock w))")
      case (Inl err)
      with assms ok show ?thesis by (simp add: visitFuncDecl_def)
    next
      case (Inr d)
      show ?thesis
      proof (cases "tmpl d")
        case None
        with assms ok Inr show ?thesis by (simp add: visitFuncDecl_def)
      next
        case (Some content)
        show ?thesis
        proof (cases "writeString e ?p (UnescapeString e content)")
          case None
          with assms ok Inr Some have "w' = w\<lparr>files := (files w)(?p \<mapsto> []), clock := Suc (clock w)\<rparr>
              \<lparr>files := ((files w)(?p \<mapsto> []))(?p \<mapsto> UnescapeString e content)\<rparr>"
            by (simp add: visitFuncDecl_def Let_def)
          then have "files w' ?p = Some (UnescapeString e content)" by simp
          with Inr Some show ?thesis by blast
        next
          case (Some n)
          with assms ok Inr \<open>tmpl d = Some content\<close> show ?thesis
            by (simp add: visitFuncDecl_def Let_def)
        qed
      qed
    qed
  qed
qed

text \<open>
  Claim C7, as amended. For every declaration that is accepted and processed without
  error, the record given to the template has as \<open>Name\<close> the name of the declaration
  without its first nine characters, and the file written is the one of that name.
  \<open>Name\<close> is empty exactly when the declaration is named \<^verbatim>\<open>directive\<close>, and not empty
  for every longer name.
\<close>

theorem directive_name_drops_prefix:
  assumes "HasPrefix (fnName fn) ''directive''" and "Doc fn = Some docText"
    and "visitFuncDecl e tmpl w fn = (w', None)"
  shows "\<exists>d content.
           parseDirective (drop 9 (fnName fn)) docText (timeNow e (clock w)) = Inr d
         \<and> tmpl d = Some content
         \<and> files w' (outputPath (Name d)) = Some (UnescapeString e content)
         \<and> Name d = drop 9 (fnName fn)
         \<and> fnName fn = ''directive'' @ Name d
         \<and> (Name d = [] \<longleftrightarrow> fnName fn = ''directive'')"
proof -
  let ?n = "drop 9 (fnName fn)"
  from visitFuncDecl_success [OF assms] obtain d content where
    p: "parseDirective ?n docText (timeNow e (clock w)) = Inr d"
    and t: "tmpl d = Some content"
    and f: "files w' (outputPath ?n) = Some (UnescapeString e content)"
    by blast
  from parseDirective_Name [OF p] have n: "Name d = ?n" .
  from HasPrefix_directive [OF assms(1)] have eq: "fnName fn = ''directive'' @ Name d"
    unfolding n .
  have "(Name d = []) = (''directive'' @ Name d = ''directive'')"
    by (simp only: append_self_conv)
  then have iff: "Name d = [] \<longleftrightarrow> fnName fn = ''directive''"
    unfolding eq .
  from f have f': "files w' (outputPath (Name d)) = Some (UnescapeString e content)"
    unfolding n .
  from p t f' n eq iff show ?thesis by blast
qed

theorem directive_name_drops_prefix_witness:
  "HasPrefix (fnName barDecl) ''directive'' \<and> Doc barDecl = Some ''Description: b''
   \<and> snd (visitFuncDecl sampleEnv sampleTemplate noFiles barDecl) = None
   \<and> (\<exists>d content.
           parseDirective ''Bar'' ''Description: b'' ''T'' = Inr d
         \<and> sampleTemplate d = Some content
         \<and> files (fst (visitFuncDecl sampleEnv sampleTemplate noFiles barDecl)) (outputPath (Name d)) = Some content
         \<and> Name d = ''Bar'')"
proof -
  let ?e = "sampleEnv"
  let ?t = "sampleTemplate"
  let ?w = "noFiles"
  let ?b = "barDecl"
  have h1: "HasPrefix (fnName ?b) ''directive''" by (simp add: HasPrefix_def)
  have h2: "Doc ?b = Some ''Description: b''" by simp
  have ok: "snd (visitFuncDecl ?e ?t ?w ?b) = None" by code_simp
  then have h3: "visitFuncDecl ?e ?t ?w ?b = (fst (visitFuncDecl ?e ?t ?w ?b), None)"
    by (simp add: prod_eq_iff)
  from directive_name_drops_prefix [OF h1 h2 h3]
  have "\<exists>d content.
           parseDirective ''Bar'' ''Description: b'' ''T'' = Inr d
         \<and> ?t d = Some content
         \<and> files (fst (visitFuncDecl ?e ?t ?w ?b)) (outputPath (Name d)) = Some content
         \<and> Name d = ''Bar''"
    by auto
  with h1 h2 ok show ?thesis by blast
qed

text \<open>
  The claim as first stated, a name that is never empty, fails for the function
  named \<^verbatim>\<open>directive\<close>: its record has the empty \<open>Name\<close> and its page is \<^verbatim>\<open>.md\<close>.
\<close>

theorem empty_name_counterexample:
  "HasPrefix (fnName bareDecl) ''directive'' \<and> Doc bareDecl \<noteq> None
   \<and> parseDirective (drop 9 ''directive'') ''Description: d'' ''T'' =
        Inr \<lparr>Name = [], Description = ''d'', Syntax = [], Default = [], Date = [],
             LastModification = ''T'', Content = []\<rparr>
   \<and> snd (visitFuncDecl sampleEnv sampleTemplate noFiles bareDecl) = None
   \<and> files (fst (visitFuncDecl sampleEnv sampleTemplate noFiles bareDecl)) ''./content/docs/seclang/directives/.md'' = Some ''|d''"
proof -
  have "HasPrefix (fnName bareDecl) ''directive''" by (simp add: HasPrefix_def)
  moreover have "Doc bareDecl \<noteq> None" by simp
  moreover have "parseDirective (drop 9 ''directive'') ''Description: d'' ''T'' =
        Inr \<lparr>Name = [], Description = ''d'', Syntax = [], Default = [], Date = [],
             LastModification = ''T'', Content = []\<rparr>" by code_simp
  moreover have "snd (visitFuncDecl sampleEnv sampleTemplate noFiles bareDecl) = None" by code_simp
  moreover have "files (fst (visitFuncDecl sampleEnv sampleTemplate noFiles bareDecl)) ''./content/docs/seclang/directives/.md'' = Some ''|d''"
    by code_simp
  ultimately show ?thesis by blast
qed

end
